theory Spec2Isabelle
  imports Main "HOL-Library.Multiset"
begin

section \<open>Exceptions and the shared state of \<open>std::promise\<close> / \<open>std::future\<close>\<close>

text \<open>
  \<open>thread_pool.h\<close> builds on four standard-library objects: \<open>std::promise\<close>,
  \<open>std::future\<close>, \<open>std::queue\<close> and \<open>std::condition_variable\<close>. They are modelled
  here as the C++ standard describes them. A C++ exception is a value of type \<open>exn\<close>;
  a call that may throw returns \<open>exn option\<close> (\<open>None\<close>: normal return) or a sum, always
  together with the state reached, since the effects made before a throw persist.
\<close>

datatype future_errc =
  broken_promise | future_already_retrieved | promise_already_satisfied | no_state

datatype exn =
  user_failure string \<comment> \<open>anything thrown by a submitted function\<close>
| future_error future_errc \<comment> \<open>\<open>std::future_error\<close>\<close>

text \<open>The result held by a shared state: nothing yet, a value, or an exception.\<close>

datatype 'r stored = not_ready | ready_value 'r | ready_exception exn

record 'r shared_state =
  result :: "'r stored"
  future_retrieved :: bool

type_synonym addr = nat

text \<open>
  The memory outside the pool object: \<open>user\<close> is whatever state the submitted functions
  read and write (opaque to the pool), \<open>slots\<close> is the heap of promise shared states,
  addressed by index. \<open>std::make_shared\<close> appends a cell, so a new address is always fresh.
\<close>

record ('w, 'r) memory =
  user :: 'w
  slots :: "'r shared_state list"

text \<open>\<open>std::function<void()>\<close>: a call runs on the memory and may throw.\<close>

type_synonym ('w, 'r) void_function = "('w, 'r) memory \<Rightarrow> exn option \<times> ('w, 'r) memory"

definition make_shared_promise :: "('w, 'r) memory \<Rightarrow> addr \<times> ('w, 'r) memory" where
  "make_shared_promise m =
     (length (slots m),
      m\<lparr>slots := slots m @ [\<lparr>result = not_ready, future_retrieved = False\<rparr>]\<rparr>)"

text \<open>
  \<open>std::future<R>\<close>: a handle that refers to a shared state while \<open>valid()\<close>, and to
  nothing afterwards. It is owned by the caller and passed by value.
\<close>

record future =
  state_ptr :: "addr option"

definition valid :: "future \<Rightarrow> bool" where
  "valid f = (state_ptr f \<noteq> None)"

text \<open>
  \<open>promise::get_future\<close>: throws \<open>future_already_retrieved\<close> on a second call, and
  \<open>no_state\<close> when the promise has no shared state. In this model a promise or future
  without shared state is one whose address was never allocated; \<open>set_value\<close> and \<open>get\<close>
  treat it the same way.
\<close>

definition get_future ::
  "addr \<Rightarrow> ('w, 'r) memory \<Rightarrow> (exn + future) \<times> ('w, 'r) memory" where
  "get_future p m =
     (if \<not> p < length (slots m) then (Inl (future_error no_state), m)
      else if future_retrieved (slots m ! p) then (Inl (future_error future_already_retrieved), m)
      else (Inr \<lparr>state_ptr = Some p\<rparr>,
            m\<lparr>slots := (slots m)[p := (slots m ! p)\<lparr>future_retrieved := True\<rparr>]\<rparr>))"

text \<open>
  \<open>promise::set_value\<close>: stores the value and makes the state ready; throws
  \<open>promise_already_satisfied\<close> when the state already holds a value or an exception, and
  leaves it as it is.
\<close>

definition set_value :: "addr \<Rightarrow> 'r \<Rightarrow> ('w, 'r) void_function" where
  "set_value p v m =
     (if \<not> p < length (slots m) then (Some (future_error no_state), m)
      else case result (slots m ! p) of
        not_ready \<Rightarrow> (None, m\<lparr>slots := (slots m)[p := (slots m ! p)\<lparr>result := ready_value v\<rparr>]\<rparr>)
      | ready_value _ \<Rightarrow> (Some (future_error promise_already_satisfied), m)
      | ready_exception _ \<Rightarrow> (Some (future_error promise_already_satisfied), m))"

text \<open>
  \<open>future::get\<close>, seen from the calling thread at one memory state. While the shared
  state is not ready the call does not return (\<open>blocks\<close>). Once it is ready the call
  returns the value or rethrows the stored exception, and releases the shared state: the
  handle is no longer \<open>valid()\<close>. On a handle that is not valid the standard leaves the
  behaviour undefined and asks implementations to throw \<open>future_error(no_state)\<close>; the
  model takes that outcome.
\<close>

datatype 'r get_outcome = blocks | returns 'r | throws exn

definition future_get :: "future \<Rightarrow> ('w, 'r) memory \<Rightarrow> 'r get_outcome \<times> future" where
  "future_get f m =
     (case state_ptr f of
        None \<Rightarrow> (throws (future_error no_state), f)
      | Some p \<Rightarrow>
          if \<not> p < length (slots m) then (throws (future_error no_state), f)
          else case result (slots m ! p) of
            not_ready \<Rightarrow> (blocks, f)
          | ready_value v \<Rightarrow> (returns v, f\<lparr>state_ptr := None\<rparr>)
          | ready_exception e \<Rightarrow> (throws e, f\<lparr>state_ptr := None\<rparr>))"

text \<open>\<open>future::wait\<close>: returns once the state is ready and keeps the handle as it is.\<close>

definition future_wait :: "future \<Rightarrow> ('w, 'r) memory \<Rightarrow> unit get_outcome \<times> future" where
  "future_wait f m =
     (case state_ptr f of
        None \<Rightarrow> (throws (future_error no_state), f)
      | Some p \<Rightarrow>
          if \<not> p < length (slots m) then (throws (future_error no_state), f)
          else case result (slots m ! p) of
            not_ready \<Rightarrow> (blocks, f)
          | ready_value v \<Rightarrow> (returns (), f)
          | ready_exception e \<Rightarrow> (returns (), f))"

section \<open>\<open>impl::FuncWrapper\<close>\<close>

text \<open>
  A submitted callable with its bound arguments: applied to the arguments it runs on the
  user state and either returns a value or throws. The generic wrapper executes
  \<open>promise->set_value(func(args...))\<close>: \<open>func\<close> runs first, and \<open>set_value\<close> is reached only
  when \<open>func\<close> returns. There is no handler in the lambda, so an exception of \<open>func\<close> leaves
  the lambda.
\<close>

definition GetWrapped ::
  "('args \<Rightarrow> 'w \<Rightarrow> (exn + 'r) \<times> 'w) \<Rightarrow> addr \<Rightarrow> 'args \<Rightarrow> ('w, 'r) void_function" where
  "GetWrapped func promise args m =
     (case func args (user m) of
        (Inl e, w') \<Rightarrow> (Some e, m\<lparr>user := w'\<rparr>)
      | (Inr x, w') \<Rightarrow> set_value promise x (m\<lparr>user := w'\<rparr>))"

text \<open>
  The specialisation \<open>FuncWrapper<void>\<close>: \<open>func(args...); promise->set_value();\<close> on a
  \<open>std::promise<void>\<close>, whose shared state holds the unit value once set.
\<close>

definition GetWrapped_void ::
  "('args \<Rightarrow> 'w \<Rightarrow> exn option \<times> 'w) \<Rightarrow> addr \<Rightarrow> 'args \<Rightarrow> ('w, unit) void_function" where
  "GetWrapped_void func promise args m =
     (case func args (user m) of
        (Some e, w') \<Rightarrow> (Some e, m\<lparr>user := w'\<rparr>)
      | (None, w') \<Rightarrow> set_value promise () (m\<lparr>user := w'\<rparr>))"

section \<open>The \<open>ThreadPool\<close> object\<close>

type_synonym tid = nat

record ('w, 'r) WorkItem =
  func :: "('w, 'r) void_function"

text \<open>
  The fields of \<open>class ThreadPool\<close>. \<open>work_\<close> is the \<open>std::queue\<close>, front first. A
  condition variable is the list of threads blocked in its \<open>wait\<close>. The mutex \<open>mu_\<close> has no
  field: every block that holds it is one atomic step of the model, so it is free in every
  state the model shows.
\<close>

record ('w, 'r) ThreadPool =
  num_workers :: int
  exit_flag :: bool
  work_queue :: "('w, 'r) WorkItem list"
  condvar :: "tid list"
  workers :: "tid list"
  work_done_condvar :: "tid list"

text \<open>
  \<open>condition_variable::notify_one\<close> unblocks one of the waiting threads, if there is
  any; which one is not specified, so the choice \<open>k\<close> is a parameter. \<open>notify_all\<close>
  unblocks all of them.
\<close>

definition notify_one :: "nat \<Rightarrow> tid list \<Rightarrow> tid list" where
  "notify_one k waiting =
     (if waiting = [] then []
      else take (k mod length waiting) waiting @ drop (Suc (k mod length waiting)) waiting)"

definition notify_all :: "tid list \<Rightarrow> tid list" where
  "notify_all waiting = []"

text \<open>\<open>std::queue::emplace\<close> appends at the back.\<close>

definition emplace :: "'a \<Rightarrow> 'a list \<Rightarrow> 'a list" where
  "emplace x q = q @ [x]"

text \<open>
  \<open>ThreadPool::ScheduleAndGetFuture\<close>, statement by statement: allocate the promise,
  take its future, wrap the callable, push the work item under the lock, notify one
  waiting worker, return the future. \<open>k\<close> is the choice \<open>notify_one\<close> makes. Allocation
  is taken to succeed.
\<close>

definition ScheduleAndGetFuture ::
  "nat \<Rightarrow> ('args \<Rightarrow> 'w \<Rightarrow> (exn + 'r) \<times> 'w) \<Rightarrow> 'args \<Rightarrow>
   ('w, 'r) ThreadPool \<times> ('w, 'r) memory \<Rightarrow>
   (exn + future) \<times> ('w, 'r) ThreadPool \<times> ('w, 'r) memory" where
  "ScheduleAndGetFuture k fn args s =
     (case s of (pool, m) \<Rightarrow>
      case make_shared_promise m of (promise, m1) \<Rightarrow>
      case get_future promise m1 of
        (Inl e, m2) \<Rightarrow> (Inl e, pool, m2)
      | (Inr ret_future, m2) \<Rightarrow>
          let wrapped_func = GetWrapped fn promise args;
              work = \<lparr>func = wrapped_func\<rparr>;
              pool1 = pool\<lparr>work_queue := emplace work (work_queue pool)\<rparr>;
              pool2 = pool1\<lparr>condvar := notify_one k (condvar pool1)\<rparr>
          in (Inr ret_future, pool2, m2))"

text \<open>The same template at \<open>ReturnT = void\<close>, where \<open>FuncWrapper<void>\<close> is chosen.\<close>

definition ScheduleAndGetFuture_void ::
  "nat \<Rightarrow> ('args \<Rightarrow> 'w \<Rightarrow> exn option \<times> 'w) \<Rightarrow> 'args \<Rightarrow>
   ('w, unit) ThreadPool \<times> ('w, unit) memory \<Rightarrow>
   (exn + future) \<times> ('w, unit) ThreadPool \<times> ('w, unit) memory" where
  "ScheduleAndGetFuture_void k fn args s =
     (case s of (pool, m) \<Rightarrow>
      case make_shared_promise m of (promise, m1) \<Rightarrow>
      case get_future promise m1 of
        (Inl e, m2) \<Rightarrow> (Inl e, pool, m2)
      | (Inr ret_future, m2) \<Rightarrow>
          let wrapped_func = GetWrapped_void fn promise args;
              work = \<lparr>func = wrapped_func\<rparr>;
              pool1 = pool\<lparr>work_queue := emplace work (work_queue pool)\<rparr>;
              pool2 = pool1\<lparr>condvar := notify_one k (condvar pool1)\<rparr>
          in (Inr ret_future, pool2, m2))"

section \<open>\<open>ScheduleAndGetFuture\<close>, one statement at a time\<close>

text \<open>
  The order in which \<open>ScheduleAndGetFuture\<close> does its work is not visible in the triple
  it returns, so the body is also given as the sequence of program points it passes
  through. A program point is taken after each statement of the body: the source line of
  that statement, the local \<open>ret_future\<close> (\<open>None\<close> while it is not yet declared), the pool
  and the memory as they are at that moment.
\<close>

record ('w, 'r) program_point =
  at_line :: nat
  ret_future_at :: "future option"
  pool_at :: "('w, 'r) ThreadPool"
  mem_at :: "('w, 'r) memory"

text \<open>
  The program points of one call, in the order of the statements of
  \<open>thread_pool.h\<close>: the promise is allocated (lines 189-190), \<open>ret_future\<close> is taken from
  it (191), the callable is wrapped (193-195), the work item is pushed under the lock
  (198-203), one waiting worker is notified (204); line 205 returns \<open>ret_future\<close> from
  the last point. A statement that throws ends the sequence.
\<close>

definition ScheduleAndGetFuture_trace ::
  "nat \<Rightarrow> ('args \<Rightarrow> 'w \<Rightarrow> (exn + 'r) \<times> 'w) \<Rightarrow> 'args \<Rightarrow>
   ('w, 'r) ThreadPool \<times> ('w, 'r) memory \<Rightarrow> ('w, 'r) program_point list" where
  "ScheduleAndGetFuture_trace k fn args s =
     (case s of (pool, m) \<Rightarrow>
      case make_shared_promise m of (promise, m1) \<Rightarrow>
      let point1 = \<lparr>at_line = 190, ret_future_at = None, pool_at = pool, mem_at = m1\<rparr> in
      case get_future promise m1 of
        (Inl e, m2) \<Rightarrow> [point1]
      | (Inr ret_future, m2) \<Rightarrow>
          let point2 = \<lparr>at_line = 191, ret_future_at = Some ret_future,
                         pool_at = pool, mem_at = m2\<rparr>;
              wrapped_func = GetWrapped fn promise args;
              point3 = \<lparr>at_line = 195, ret_future_at = Some ret_future,
                         pool_at = pool, mem_at = m2\<rparr>;
              work = \<lparr>func = wrapped_func\<rparr>;
              pool1 = pool\<lparr>work_queue := emplace work (work_queue pool)\<rparr>;
              point4 = \<lparr>at_line = 202, ret_future_at = Some ret_future,
                         pool_at = pool1, mem_at = m2\<rparr>;
              pool2 = pool1\<lparr>condvar := notify_one k (condvar pool1)\<rparr>;
              point5 = \<lparr>at_line = 204, ret_future_at = Some ret_future,
                         pool_at = pool2, mem_at = m2\<rparr>
          in [point1, point2, point3, point4, point5])"

text \<open>The same body at \<open>ReturnT = void\<close>.\<close>

definition ScheduleAndGetFuture_void_trace ::
  "nat \<Rightarrow> ('args \<Rightarrow> 'w \<Rightarrow> exn option \<times> 'w) \<Rightarrow> 'args \<Rightarrow>
   ('w, unit) ThreadPool \<times> ('w, unit) memory \<Rightarrow> ('w, unit) program_point list" where
  "ScheduleAndGetFuture_void_trace k fn args s =
     (case s of (pool, m) \<Rightarrow>
      case make_shared_promise m of (promise, m1) \<Rightarrow>
      let point1 = \<lparr>at_line = 190, ret_future_at = None, pool_at = pool, mem_at = m1\<rparr> in
      case get_future promise m1 of
        (Inl e, m2) \<Rightarrow> [point1]
      | (Inr ret_future, m2) \<Rightarrow>
          let point2 = \<lparr>at_line = 191, ret_future_at = Some ret_future,
                         pool_at = pool, mem_at = m2\<rparr>;
              wrapped_func = GetWrapped_void fn promise args;
              point3 = \<lparr>at_line = 195, ret_future_at = Some ret_future,
                         pool_at = pool, mem_at = m2\<rparr>;
              work = \<lparr>func = wrapped_func\<rparr>;
              pool1 = pool\<lparr>work_queue := emplace work (work_queue pool)\<rparr>;
              point4 = \<lparr>at_line = 202, ret_future_at = Some ret_future,
                         pool_at = pool1, mem_at = m2\<rparr>;
              pool2 = pool1\<lparr>condvar := notify_one k (condvar pool1)\<rparr>;
              point5 = \<lparr>at_line = 204, ret_future_at = Some ret_future,
                         pool_at = pool2, mem_at = m2\<rparr>
          in [point1, point2, point3, point4, point5])"

section \<open>Sample inputs\<close>

text \<open>
  Concrete inputs at which the theorems below are evaluated: a pool of two workers, both
  blocked on \<open>condvar\<close>, an empty memory whose user state is a counter, and three
  callables that bump the counter and then return a value, return nothing, or throw.
\<close>

definition sample_pool :: "(nat, 'r) ThreadPool" where
  "sample_pool =
     \<lparr>num_workers = 2, exit_flag = False, work_queue = [], condvar = [1, 2],
      workers = [1, 2], work_done_condvar = []\<rparr>"

definition sample_memory :: "(nat, 'r) memory" where
  "sample_memory = \<lparr>user = 0, slots = []\<rparr>"

definition fn_const :: "int \<Rightarrow> nat \<Rightarrow> (exn + int) \<times> nat" where
  "fn_const a w = (Inr a, Suc w)"

definition fn_fails :: "int \<Rightarrow> nat \<Rightarrow> (exn + int) \<times> nat" where
  "fn_fails a w = (Inl (user_failure ''boom''), Suc w)"

definition fn_void :: "int \<Rightarrow> nat \<Rightarrow> exn option \<times> nat" where
  "fn_void a w = (None, Suc w)"

definition fn_void_fails :: "int \<Rightarrow> nat \<Rightarrow> exn option \<times> nat" where
  "fn_void_fails a w = (Some (user_failure ''boom''), Suc w)"

section \<open>The pool at work: constructor, \<open>Schedule\<close>, worker loop, \<open>Wait\<close>, destructor\<close>

text \<open>
  \<open>thread_pool.h\<close> declares the constructor, \<open>Schedule\<close>, \<open>ThreadLoop\<close>, \<open>Wait\<close> and the
  destructor; their bodies are in \<open>thread_pool.cc\<close>. The definitions of this section
  follow the specification's description of them and are marked so. The pool runs as an
  interleaving of atomic steps: a step is a submission, a move of one worker's loop, a
  move of a caller inside \<open>Wait\<close>, or a move of the destructor.
\<close>

text \<open>
  Modelled from the spec: the body of \<open>Schedule\<close> (fire-and-forget submission). It
  "wraps [the action] as a Work Item and enqueues it; no handle is returned", and
  "enqueuing must wake exactly one blocked worker if any are waiting". Only the
  declaration \<open>void Schedule(std::function<void(void)> func)\<close> is in the header.
\<close>

definition Schedule ::
  "nat \<Rightarrow> ('w, 'r) void_function \<Rightarrow> ('w, 'r) ThreadPool \<Rightarrow> ('w, 'r) ThreadPool" where
  "Schedule k f pool =
     (let work = \<lparr>func = f\<rparr>;
          pool1 = pool\<lparr>work_queue := emplace work (work_queue pool)\<rparr>
      in pool1\<lparr>condvar := notify_one k (condvar pool1)\<rparr>)"

text \<open>
  Modelled from the spec: the states of a worker (\<open>ThreadLoop\<close> is not in the header),
  "state machine per worker, states {Waiting, Executing, Exiting}". A worker that is
  \<open>Waiting\<close> is blocked when its id is in \<open>condvar\<close>, and about to look at the queue
  otherwise. An \<open>Executing\<close> worker holds the item it dequeued.
\<close>

datatype ('w, 'r) worker_state =
  is_Waiting: Waiting
| is_Executing: Executing "('w, 'r) WorkItem"
| is_Exiting: Exiting

text \<open>
  Modelled from the spec: how far the destructor is (its body is not in the header):
  not called, between setting the flag and the last join, or returned.
\<close>

datatype lifecycle = Running | TearingDown | Destroyed

text \<open>
  The whole system: the pool object, the memory, one state per worker thread (worker
  \<open>w\<close> is \<open>threads ! w\<close>), how far the destructor is, and three history lists that no step
  reads: the items enqueued, dequeued and run to completion so far, each in the order
  in which it happened.
\<close>

record ('w, 'r) system =
  thread_pool :: "('w, 'r) ThreadPool"
  mem :: "('w, 'r) memory"
  threads :: "('w, 'r) worker_state list"
  phase :: lifecycle
  submitted :: "('w, 'r) WorkItem list"
  dequeued :: "('w, 'r) WorkItem list"
  executed :: "('w, 'r) WorkItem list"

text \<open>
  Modelled from the spec: the body of the constructor. "Construct(workerCount:
  non-negative integer)": a fixed worker count, a cleared shutdown flag, an empty queue
  and \<open>N\<close> workers at the head of their loop; a negative count is a misuse and
  constructs nothing.
\<close>

definition ThreadPool_new :: "int \<Rightarrow> ('w, 'r) memory \<Rightarrow> ('w, 'r) system option" where
  "ThreadPool_new n m =
     (if n < 0 then None
      else Some
        \<lparr>thread_pool = \<lparr>num_workers = n, exit_flag = False, work_queue = [], condvar = [],
                 workers = [0..<nat n], work_done_condvar = []\<rparr>,
         mem = m, threads = replicate (nat n) Waiting, phase = Running,
         submitted = [], dequeued = [], executed = []\<rparr>)"

text \<open>The items that workers are executing right now, and what \<open>Wait\<close> waits for.\<close>

fun in_flight :: "('w, 'r) worker_state list \<Rightarrow> ('w, 'r) WorkItem list" where
  "in_flight [] = []"
| "in_flight (Executing item # ts) = item # in_flight ts"
| "in_flight (Waiting # ts) = in_flight ts"
| "in_flight (Exiting # ts) = in_flight ts"

definition all_done :: "('w, 'r) system \<Rightarrow> bool" where
  "all_done s = (work_queue (thread_pool s) = [] \<and> in_flight (threads s) = [])"

definition idle :: "tid \<Rightarrow> ('w, 'r) system \<Rightarrow> bool" where
  "idle w s =
     (w < length (threads s) \<and> is_Waiting (threads s ! w) \<and> w \<notin> set (condvar (thread_pool s)))"

text \<open>
  The four moves of a worker below follow the specification's worker loop (section 4.2)
  and the \<open>Dequeue\<close> contract of section 4.1; \<open>ThreadLoop\<close> is declared in the header and
  its body is not.
\<close>

text \<open>
  Modelled from the spec: \<open>ThreadLoop\<close>, the wait for work. \<open>Dequeue\<close> "blocks the
  calling worker until either an item is available or a shutdown signal is observed":
  with neither, the worker joins the threads blocked on \<open>condvar\<close>.
\<close>

definition worker_block :: "tid \<Rightarrow> ('w, 'r) system \<Rightarrow> ('w, 'r) system option" where
  "worker_block w s =
     (if idle w s \<and> \<not> exit_flag (thread_pool s) \<and> work_queue (thread_pool s) = []
      then Some (s\<lparr>thread_pool := (thread_pool s)\<lparr>condvar := condvar (thread_pool s) @ [w]\<rparr>\<rparr>)
      else None)"

text \<open>
  Modelled from the spec: \<open>ThreadLoop\<close>, the dequeue. "Transition Waiting to Executing on
  successful dequeue": a worker that is not blocked takes the front item of the queue
  (\<open>front\<close> and \<open>pop\<close>, the only removal a \<open>std::queue\<close> has).
\<close>

definition worker_dequeue :: "tid \<Rightarrow> ('w, 'r) system \<Rightarrow> ('w, 'r) system option" where
  "worker_dequeue w s =
     (if idle w s then
        (case work_queue (thread_pool s) of
           [] \<Rightarrow> None
         | work_item # rest \<Rightarrow>
             Some (s\<lparr>thread_pool := (thread_pool s)\<lparr>work_queue := rest\<rparr>,
                     threads := (threads s)[w := Executing work_item],
                     dequeued := dequeued s @ [work_item]\<rparr>))
      else None)"

text \<open>
  Modelled from the spec: \<open>ThreadLoop\<close>, running the item. "Executing to Waiting after
  running the item's action to completion", on the worker's own thread; a failure of the
  action is contained ("one failing task cannot disable the worker"). "If the queue is
  now empty and no other item is in flight", the worker notifies the threads blocked in
  \<open>Wait\<close>.
\<close>

definition worker_finish :: "tid \<Rightarrow> ('w, 'r) system \<Rightarrow> ('w, 'r) system option" where
  "worker_finish w s =
     (if w < length (threads s) then
        (case threads s ! w of
           Executing work_item \<Rightarrow>
             (case func work_item (mem s) of (failure, m') \<Rightarrow>
                let ts = (threads s)[w := Waiting];
                    p = thread_pool s;
                    p' = (if work_queue p = [] \<and> in_flight ts = []
                          then p\<lparr>work_done_condvar := notify_all (work_done_condvar p)\<rparr>
                          else p)
                in Some (s\<lparr>thread_pool := p', mem := m', threads := ts,
                           executed := executed s @ [work_item]\<rparr>))
         | Waiting \<Rightarrow> None
         | Exiting \<Rightarrow> None)
      else None)"

text \<open>
  Modelled from the spec: \<open>ThreadLoop\<close>, leaving the loop. "Waiting to Exiting when
  shutdown is observed with an empty queue."
\<close>

definition worker_exit :: "tid \<Rightarrow> ('w, 'r) system \<Rightarrow> ('w, 'r) system option" where
  "worker_exit w s =
     (if idle w s \<and> exit_flag (thread_pool s) \<and> work_queue (thread_pool s) = []
      then Some (s\<lparr>threads := (threads s)[w := Exiting]\<rparr>)
      else None)"

text \<open>
  Modelled from the spec: the body of \<open>Wait\<close> (section 4.4, Drain), blocking. It
  "blocks the calling thread until the queue is empty and no worker is currently
  executing an item": a caller that finds work outstanding joins the threads blocked on
  \<open>work_done_condvar\<close>.
\<close>

definition wait_block :: "tid \<Rightarrow> ('w, 'r) system \<Rightarrow> ('w, 'r) system option" where
  "wait_block t s =
     (if \<not> all_done s \<and> t \<notin> set (work_done_condvar (thread_pool s))
      then Some (s\<lparr>thread_pool :=
                   (thread_pool s)\<lparr>work_done_condvar := work_done_condvar (thread_pool s) @ [t]\<rparr>\<rparr>)
      else None)"

text \<open>
  Modelled from the spec: the body of \<open>Wait\<close>, returning. The call returns for a caller
  that is not blocked, when the queue is empty and no worker is executing an item.
\<close>

definition wait_return :: "tid \<Rightarrow> ('w, 'r) system \<Rightarrow> ('w, 'r) system option" where
  "wait_return t s =
     (if all_done s \<and> t \<notin> set (work_done_condvar (thread_pool s)) then Some s else None)"

text \<open>
  Modelled from the spec: the body of the destructor (section 4.4, Teardown), its first
  part. It "sets the shutdown flag, wakes all workers waiting on the queue"; the header's
  comment on \<open>exit_\<close> says the same. The sequence is performed "exactly once": it begins
  on a running pool only.
\<close>

definition teardown_begin :: "('w, 'r) system \<Rightarrow> ('w, 'r) system option" where
  "teardown_begin s =
     (if phase s = Running
      then Some (s\<lparr>thread_pool :=
                   (thread_pool s)\<lparr>exit_flag := True,
                                   condvar := notify_all (condvar (thread_pool s))\<rparr>,
                 phase := TearingDown\<rparr>)
      else None)"

text \<open>
  Modelled from the spec: the body of the destructor, the join. It "blocks until every
  worker thread has exited", and returns then.
\<close>

definition teardown_end :: "('w, 'r) system \<Rightarrow> ('w, 'r) system option" where
  "teardown_end s =
     (if phase s = TearingDown \<and> list_all is_Exiting (threads s)
      then Some (s\<lparr>phase := Destroyed\<rparr>)
      else None)"

text \<open>
  The events of the system: the two submissions, the moves of a worker, of a caller of
  \<open>Wait\<close> and of the destructor. The number in a submission is the choice its
  \<open>notify_one\<close> makes.
\<close>

datatype ('w, 'r, 'args) event =
  Schedule_call nat "('w, 'r) void_function"
| ScheduleAndGetFuture_call nat "'args \<Rightarrow> 'w \<Rightarrow> (exn + 'r) \<times> 'w" 'args
| Worker_block tid
| Worker_dequeue tid
| Worker_finish tid
| Worker_exit tid
| Wait_block tid
| Wait_return tid
| Teardown_begin
| Teardown_end

text \<open>
  Modelled from the spec: which submissions are accepted. "After teardown begins,
  further submissions are a programming error": they are no step of the system.
  \<open>ScheduleAndGetFuture\<close> itself is the function of the header; its handle goes to the
  caller and is not part of the system state.
\<close>

fun step :: "('w, 'r, 'args) event \<Rightarrow> ('w, 'r) system \<Rightarrow> ('w, 'r) system option" where
  "step (Schedule_call k f) s =
     (if phase s = Running
      then Some (s\<lparr>thread_pool := Schedule k f (thread_pool s), submitted := submitted s @ [\<lparr>func = f\<rparr>]\<rparr>)
      else None)"
| "step (ScheduleAndGetFuture_call k fn args) s =
     (if phase s = Running
      then (case ScheduleAndGetFuture k fn args (thread_pool s, mem s) of
              (ret_future, pool', m') \<Rightarrow>
                Some (s\<lparr>thread_pool := pool', mem := m',
                        submitted := submitted s @ [last (work_queue pool')]\<rparr>))
      else None)"
| "step (Worker_block w) s = worker_block w s"
| "step (Worker_dequeue w) s = worker_dequeue w s"
| "step (Worker_finish w) s = worker_finish w s"
| "step (Worker_exit w) s = worker_exit w s"
| "step (Wait_block t) s = wait_block t s"
| "step (Wait_return t) s = wait_return t s"
| "step Teardown_begin s = teardown_begin s"
| "step Teardown_end s = teardown_end s"

fun run :: "('w, 'r, 'args) event list \<Rightarrow> ('w, 'r) system \<Rightarrow> ('w, 'r) system option" where
  "run [] s = Some s"
| "run (e # es) s = (case step e s of None \<Rightarrow> None | Some s' \<Rightarrow> run es s')"

fun is_submission :: "('w, 'r, 'args) event \<Rightarrow> bool" where
  "is_submission (Schedule_call k f) = True"
| "is_submission (ScheduleAndGetFuture_call k fn args) = True"
| "is_submission e = False"

text \<open>Sample inputs: a fire-and-forget action that adds \<open>n\<close> to the counter, and three runs.\<close>

definition add_user :: "nat \<Rightarrow> (nat, 'r) void_function" where
  "add_user n m = (None, m\<lparr>user := user m + n\<rparr>)"

definition sample_run_wait :: "(nat, int, int) event list" where
  "sample_run_wait =
     [Worker_block 1, Schedule_call 0 (add_user 1), Schedule_call 0 (add_user 1),
      Worker_dequeue 0, Worker_dequeue 1, Schedule_call 0 (add_user 1), Worker_finish 1,
      Wait_block 7, Worker_finish 0, Worker_dequeue 0, Worker_finish 0]"

definition sample_run_fifo :: "(nat, int, int) event list" where
  "sample_run_fifo =
     [Schedule_call 0 (add_user 1), Schedule_call 0 (add_user 2),
      ScheduleAndGetFuture_call 0 fn_const 42, Worker_dequeue 1, Worker_dequeue 0,
      Worker_finish 0]"

definition sample_run_teardown :: "(nat, int, int) event list" where
  "sample_run_teardown =
     [Worker_block 0, Worker_block 1, Schedule_call 0 (add_user 1), Teardown_begin,
      Worker_dequeue 1, Worker_finish 1, Worker_exit 1, Worker_exit 0, Teardown_end]"

text \<open>
  Invariants of the running system. The items enqueued so far are the items dequeued so
  far followed by the queue; every dequeued item is either executed or in flight; once
  the destructor has begun the flag is set and no worker is blocked on \<open>condvar\<close>, and
  once it has returned every worker has exited; no caller stays blocked in \<open>Wait\<close> when
  nothing is outstanding.
\<close>

definition fifo_inv :: "('w, 'r) system \<Rightarrow> bool" where
  "fifo_inv s = (submitted s = dequeued s @ work_queue (thread_pool s))"

definition conservation_inv :: "('w, 'r) system \<Rightarrow> bool" where
  "conservation_inv s = (mset (dequeued s) = mset (executed s) + mset (in_flight (threads s)))"

definition teardown_inv :: "('w, 'r) system \<Rightarrow> bool" where
  "teardown_inv s =
     ((phase s \<noteq> Running \<longrightarrow> exit_flag (thread_pool s) \<and> condvar (thread_pool s) = []) \<and>
      (phase s = Destroyed \<longrightarrow> list_all is_Exiting (threads s)))"

definition wait_inv :: "('w, 'r) system \<Rightarrow> bool" where
  "wait_inv s = (all_done s \<longrightarrow> work_done_condvar (thread_pool s) = [])"

section \<open>Basic facts\<close>

lemma make_shared_promise_eq:
  "make_shared_promise m =
     (length (slots m), m\<lparr>slots := slots m @ [\<lparr>result = not_ready, future_retrieved = False\<rparr>]\<rparr>)"
  by (simp add: make_shared_promise_def)

lemma get_future_fresh:
  "get_future (length (slots m))
     (m\<lparr>slots := slots m @ [\<lparr>result = not_ready, future_retrieved = False\<rparr>]\<rparr>) =
   (Inr \<lparr>state_ptr = Some (length (slots m))\<rparr>,
    m\<lparr>slots := slots m @ [\<lparr>result = not_ready, future_retrieved = True\<rparr>]\<rparr>)"
  by (simp add: get_future_def)

lemma ScheduleAndGetFuture_eq:
  "ScheduleAndGetFuture k fn args (pool, m) =
     (Inr \<lparr>state_ptr = Some (length (slots m))\<rparr>,
      pool\<lparr>work_queue := work_queue pool @ [\<lparr>func = GetWrapped fn (length (slots m)) args\<rparr>],
           condvar := notify_one k (condvar pool)\<rparr>,
      m\<lparr>slots := slots m @ [\<lparr>result = not_ready, future_retrieved = True\<rparr>]\<rparr>)"
  by (simp add: ScheduleAndGetFuture_def make_shared_promise_eq get_future_fresh emplace_def)

lemma ScheduleAndGetFuture_void_eq:
  "ScheduleAndGetFuture_void k fn args (pool, m) =
     (Inr \<lparr>state_ptr = Some (length (slots m))\<rparr>,
      pool\<lparr>work_queue := work_queue pool @ [\<lparr>func = GetWrapped_void fn (length (slots m)) args\<rparr>],
           condvar := notify_one k (condvar pool)\<rparr>,
      m\<lparr>slots := slots m @ [\<lparr>result = not_ready, future_retrieved = True\<rparr>]\<rparr>)"
  by (simp add: ScheduleAndGetFuture_void_def make_shared_promise_eq get_future_fresh emplace_def)

lemma GetWrapped_returns:
  assumes "p < length (slots m)" and "result (slots m ! p) = not_ready"
    and "fn args (user m) = (Inr v, w')"
  shows "GetWrapped fn p args m =
           (None, m\<lparr>user := w', slots := (slots m)[p := (slots m ! p)\<lparr>result := ready_value v\<rparr>]\<rparr>)"
  using assms by (simp add: GetWrapped_def set_value_def)

lemma GetWrapped_void_returns:
  assumes "p < length (slots m)" and "result (slots m ! p) = not_ready"
    and "fn args (user m) = (None, w')"
  shows "GetWrapped_void fn p args m =
           (None, m\<lparr>user := w', slots := (slots m)[p := (slots m ! p)\<lparr>result := ready_value ()\<rparr>]\<rparr>)"
  using assms by (simp add: GetWrapped_void_def set_value_def)

lemma GetWrapped_throws:
  assumes "fn args (user m) = (Inl e, w')"
  shows "GetWrapped fn p args m = (Some e, m\<lparr>user := w'\<rparr>)"
  using assms by (simp add: GetWrapped_def)

lemma GetWrapped_void_throws:
  assumes "fn args (user m) = (Some e, w')"
  shows "GetWrapped_void fn p args m = (Some e, m\<lparr>user := w'\<rparr>)"
  using assms by (simp add: GetWrapped_void_def)

lemma set_value_refused:
  assumes "p < length (slots m)" and "result (slots m ! p) = ready_value v"
  shows "set_value p v' m = (Some (future_error promise_already_satisfied), m)"
  using assms by (simp add: set_value_def)

lemma future_get_user_irrelevant: "future_get h (m\<lparr>user := w\<rparr>) = future_get h m"
  by (cases "state_ptr h") (simp_all add: future_get_def)

lemma notify_one_removes_one:
  assumes "waiting \<noteq> []"
  shows "\<exists>w \<in> set waiting. mset (notify_one k waiting) + {#w#} = mset waiting"
proof -
  let ?i = "k mod length waiting"
  from assms have i: "?i < length waiting" by simp
  then have split: "waiting = take ?i waiting @ waiting ! ?i # drop (Suc ?i) waiting"
    by (rule id_take_nth_drop)
  have "mset waiting = mset (take ?i waiting) + {#waiting ! ?i#} + mset (drop (Suc ?i) waiting)"
    by (subst split) simp
  moreover have "mset (notify_one k waiting) = mset (take ?i waiting) + mset (drop (Suc ?i) waiting)"
    using assms by (simp add: notify_one_def)
  moreover from i have "waiting ! ?i \<in> set waiting" by simp
  ultimately show ?thesis by (intro bexI [of _ "waiting ! ?i"]) simp_all
qed

lemma length_notify_one:
  "waiting \<noteq> [] \<Longrightarrow> length (notify_one k waiting) + 1 = length waiting"
proof -
  assume ne: "waiting \<noteq> []"
  then have "k mod length waiting < length waiting" by simp
  then have "k mod length waiting + (length waiting - Suc (k mod length waiting)) + 1 = length waiting"
    by arith
  with ne show ?thesis by (simp add: notify_one_def)
qed

lemma notify_one_Nil: "notify_one k [] = []"
  by (simp add: notify_one_def)

section \<open>Failures of a submitted function\<close>

text \<open>
  Claim C1, as amended. When the function of a result-bearing submission throws \<open>e\<close>
  while its work item runs, the wrapper stores nothing: \<open>e\<close> leaves the work item towards
  whoever invoked it, only the user state has changed, every shared state is as it was,
  and so \<open>Get()\<close> on any handle answers as it did before the item ran (it still blocks on
  the slot of this submission). This holds for both wrappers.
\<close>

theorem GetWrapped_failure_not_stored:
  "(fn args (user m) = (Inl e, w') \<longrightarrow>
      GetWrapped fn p args m = (Some e, m\<lparr>user := w'\<rparr>) \<and>
      slots (snd (GetWrapped fn p args m)) = slots m \<and>
      future_get h (snd (GetWrapped fn p args m)) = future_get h m) \<and>
   (fv argsv (user mv) = (Some e, wv') \<longrightarrow>
      GetWrapped_void fv p argsv mv = (Some e, mv\<lparr>user := wv'\<rparr>) \<and>
      slots (snd (GetWrapped_void fv p argsv mv)) = slots mv \<and>
      future_get h (snd (GetWrapped_void fv p argsv mv)) = future_get h mv)"
  by (simp add: GetWrapped_throws GetWrapped_void_throws future_get_user_irrelevant)

theorem GetWrapped_failure_not_stored_witness:
  "fn_fails 7 (user (sample_memory :: (nat, int) memory)) = (Inl (user_failure ''boom''), 1) \<and>
   GetWrapped fn_fails 0 7 (sample_memory :: (nat, int) memory) =
     (Some (user_failure ''boom''), sample_memory\<lparr>user := 1\<rparr>) \<and>
   fn_void_fails 7 (user (sample_memory :: (nat, unit) memory)) = (Some (user_failure ''boom''), 1) \<and>
   GetWrapped_void fn_void_fails 0 7 (sample_memory :: (nat, unit) memory) =
     (Some (user_failure ''boom''), sample_memory\<lparr>user := 1\<rparr>)"
  using GetWrapped_failure_not_stored [of fn_fails 7 "sample_memory :: (nat, int) memory"
      "user_failure ''boom''" 1 0 "\<lparr>state_ptr = Some 0\<rparr>" fn_void_fails 7
      "sample_memory :: (nat, unit) memory" 1]
  by (simp add: fn_fails_def fn_void_fails_def sample_memory_def)

text \<open>
  The claim as stated fails: submit \<open>fn_fails\<close>, run the enqueued work item. The item
  ends with the failure, the slot is still not ready, and \<open>Get()\<close> on the returned handle
  blocks instead of rethrowing the failure.
\<close>

theorem failure_resurfaced_counterexample:
  "case ScheduleAndGetFuture 0 fn_fails 7 (sample_pool, sample_memory) of
     (r, pool', m') \<Rightarrow>
       r = Inr \<lparr>state_ptr = Some 0\<rparr> \<and>
       fst (func (last (work_queue pool')) m') = Some (user_failure ''boom'') \<and>
       result (slots (snd (func (last (work_queue pool')) m')) ! 0) = not_ready \<and>
       fst (future_get \<lparr>state_ptr = Some 0\<rparr> (snd (func (last (work_queue pool')) m'))) = blocks \<and>
       fst (future_get \<lparr>state_ptr = Some 0\<rparr> (snd (func (last (work_queue pool')) m')))
         \<noteq> throws (user_failure ''boom'')"
  by (simp add: ScheduleAndGetFuture_eq sample_pool_def sample_memory_def GetWrapped_def
      fn_fails_def future_get_def)

section \<open>Reading a written slot\<close>

text \<open>
  Claim C2, as amended. Once the slot of a handle holds the value \<open>v\<close>, \<open>Get()\<close> on the
  handle returns \<open>v\<close> without blocking, and \<open>wait()\<close> returns without blocking and can be
  repeated, since it leaves the handle as it is. \<open>Get()\<close> itself cannot be repeated: the
  handle is a \<open>std::future\<close>, the first \<open>Get()\<close> releases the shared state, and a second
  \<open>Get()\<close> on the same handle does not return \<open>v\<close>.
\<close>

theorem future_get_once:
  assumes "state_ptr h = Some p" and "p < length (slots m)"
    and "result (slots m ! p) = ready_value v"
  shows "future_get h m = (returns v, h\<lparr>state_ptr := None\<rparr>) \<and>
         \<not> valid (snd (future_get h m)) \<and>
         future_get (snd (future_get h m)) m =
           (throws (future_error no_state), h\<lparr>state_ptr := None\<rparr>) \<and>
         future_wait h m = (returns (), h) \<and>
         future_get (snd (future_wait h m)) m = (returns v, h\<lparr>state_ptr := None\<rparr>)"
  using assms by (simp add: future_get_def future_wait_def valid_def)

theorem future_get_once_witness:
  "case ScheduleAndGetFuture 0 fn_const 42 (sample_pool, sample_memory) of
     (r, pool', m') \<Rightarrow>
       r = Inr \<lparr>state_ptr = Some 0\<rparr> \<and>
       result (slots (snd (func (last (work_queue pool')) m')) ! 0) = ready_value 42 \<and>
       future_get \<lparr>state_ptr = Some 0\<rparr> (snd (func (last (work_queue pool')) m')) =
         (returns 42, \<lparr>state_ptr = None\<rparr>)"
  using future_get_once [of "\<lparr>state_ptr = Some 0\<rparr>" 0
      "\<lparr>user = 1, slots = [\<lparr>result = ready_value 42, future_retrieved = True\<rparr>]\<rparr> :: (nat, int) memory"
      42]
  by (simp add: ScheduleAndGetFuture_eq sample_pool_def sample_memory_def GetWrapped_def
      fn_const_def set_value_def)

text \<open>
  The claim as stated fails on the second read: after the work item of \<open>fn_const 42\<close> has
  run, the first \<open>Get()\<close> returns 42 and the second one, on the handle the first one left,
  does not.
\<close>

theorem repeated_get_counterexample:
  "case ScheduleAndGetFuture 0 fn_const 42 (sample_pool, sample_memory) of
     (r, pool', m') \<Rightarrow>
       r = Inr \<lparr>state_ptr = Some 0\<rparr> \<and>
       fst (future_get \<lparr>state_ptr = Some 0\<rparr> (snd (func (last (work_queue pool')) m'))) =
         returns 42 \<and>
       fst (future_get
             (snd (future_get \<lparr>state_ptr = Some 0\<rparr> (snd (func (last (work_queue pool')) m'))))
             (snd (func (last (work_queue pool')) m'))) \<noteq> returns 42"
  by (simp add: ScheduleAndGetFuture_eq sample_pool_def sample_memory_def GetWrapped_def
      fn_const_def set_value_def future_get_def)

section \<open>What \<open>ScheduleAndGetFuture\<close> does to the pool\<close>

text \<open>
  Claim C6. The enqueue of \<open>ScheduleAndGetFuture\<close> ends with \<open>condvar_.notify_one()\<close>:
  when threads are blocked on \<open>condvar\<close>, exactly one of them is unblocked (the blocked
  threads afterwards are the ones before minus a single thread) and with two or more
  blocked, some stay blocked, so it is not a broadcast; when none is blocked, none is
  unblocked. The same holds for the \<open>void\<close> instance.
\<close>

theorem ScheduleAndGetFuture_wakes_one:
  "(condvar pool \<noteq> [] \<longrightarrow>
      (\<exists>w \<in> set (condvar pool).
         mset (condvar (fst (snd (ScheduleAndGetFuture k fn args (pool, m))))) + {#w#} =
         mset (condvar pool)) \<and>
      length (condvar (fst (snd (ScheduleAndGetFuture k fn args (pool, m))))) + 1 =
        length (condvar pool)) \<and>
   (2 \<le> length (condvar pool) \<longrightarrow>
      condvar (fst (snd (ScheduleAndGetFuture k fn args (pool, m)))) \<noteq>
        notify_all (condvar pool)) \<and>
   (condvar pool = [] \<longrightarrow>
      condvar (fst (snd (ScheduleAndGetFuture k fn args (pool, m)))) = []) \<and>
   condvar (fst (snd (ScheduleAndGetFuture_void k fv argsv (poolv, mv)))) =
     notify_one k (condvar poolv)"
proof -
  have one: "condvar (fst (snd (ScheduleAndGetFuture k fn args (pool, m)))) =
      notify_one k (condvar pool)"
    by (simp add: ScheduleAndGetFuture_eq)
  have "condvar pool \<noteq> [] \<Longrightarrow>
      \<exists>w \<in> set (condvar pool). mset (notify_one k (condvar pool)) + {#w#} = mset (condvar pool)"
    by (rule notify_one_removes_one)
  moreover have len: "condvar pool \<noteq> [] \<Longrightarrow>
      length (notify_one k (condvar pool)) + 1 = length (condvar pool)"
    by (rule length_notify_one)
  moreover have "2 \<le> length (condvar pool) \<Longrightarrow> notify_one k (condvar pool) \<noteq> []"
  proof
    assume two: "2 \<le> length (condvar pool)" and "notify_one k (condvar pool) = []"
    then have "length (notify_one k (condvar pool)) = 0" by simp
    moreover from two have "condvar pool \<noteq> []" by auto
    ultimately show False using len two by simp
  qed
  moreover have "condvar (fst (snd (ScheduleAndGetFuture_void k fv argsv (poolv, mv)))) =
      notify_one k (condvar poolv)"
    by (simp add: ScheduleAndGetFuture_void_eq)
  ultimately show ?thesis
    unfolding one by (simp add: notify_one_Nil notify_all_def)
qed

theorem ScheduleAndGetFuture_wakes_one_witness:
  "condvar (sample_pool :: (nat, int) ThreadPool) = [1, 2] \<and>
   condvar (fst (snd (ScheduleAndGetFuture 0 fn_const 42 (sample_pool, sample_memory)))) = [2] \<and>
   condvar (fst (snd (ScheduleAndGetFuture 0 fn_const 42
     (sample_pool\<lparr>condvar := []\<rparr>, sample_memory)))) = []"
  using ScheduleAndGetFuture_wakes_one [of "sample_pool :: (nat, int) ThreadPool" 0 fn_const 42
      sample_memory fn_void 42 sample_pool sample_memory]
    ScheduleAndGetFuture_wakes_one [of "sample_pool\<lparr>condvar := []\<rparr> :: (nat, int) ThreadPool" 0
      fn_const 42 sample_memory fn_void 42 sample_pool sample_memory]
  by (simp add: ScheduleAndGetFuture_eq sample_pool_def notify_one_def)

text \<open>
  Claim C10. A call of \<open>ScheduleAndGetFuture\<close> appends exactly one work item at the back
  of the queue (the items already queued stay in place, the length grows by one) and
  leaves \<open>exit_\<close>, \<open>num_workers_\<close> and \<open>workers_\<close> as they were. The same holds for the
  \<open>void\<close> instance.
\<close>

theorem ScheduleAndGetFuture_frame:
  "length (work_queue (fst (snd (ScheduleAndGetFuture k fn args (pool, m))))) =
     length (work_queue pool) + 1 \<and>
   butlast (work_queue (fst (snd (ScheduleAndGetFuture k fn args (pool, m))))) =
     work_queue pool \<and>
   exit_flag (fst (snd (ScheduleAndGetFuture k fn args (pool, m)))) = exit_flag pool \<and>
   num_workers (fst (snd (ScheduleAndGetFuture k fn args (pool, m)))) = num_workers pool \<and>
   workers (fst (snd (ScheduleAndGetFuture k fn args (pool, m)))) = workers pool \<and>
   length (work_queue (fst (snd (ScheduleAndGetFuture_void k fv argsv (poolv, mv))))) =
     length (work_queue poolv) + 1 \<and>
   butlast (work_queue (fst (snd (ScheduleAndGetFuture_void k fv argsv (poolv, mv))))) =
     work_queue poolv \<and>
   exit_flag (fst (snd (ScheduleAndGetFuture_void k fv argsv (poolv, mv)))) = exit_flag poolv \<and>
   num_workers (fst (snd (ScheduleAndGetFuture_void k fv argsv (poolv, mv)))) =
     num_workers poolv \<and>
   workers (fst (snd (ScheduleAndGetFuture_void k fv argsv (poolv, mv)))) = workers poolv"
  by (simp add: ScheduleAndGetFuture_eq ScheduleAndGetFuture_void_eq)

section \<open>The wrapped work item and the handle\<close>

text \<open>
  Claim C7. Let the promise of a submission point at a slot that is not ready, as
  \<open>ScheduleAndGetFuture\<close> leaves it. When the function returns \<open>v\<close>, one invocation of the
  wrapped work item returns normally and changes the memory in two places only: the user
  state is the one the function left, and the slot holds \<open>v\<close>. The slot is written once: a
  further \<open>set_value\<close> on it is refused and changes nothing. When the return type is
  \<open>void\<close>, the wrapper runs the function and then fills the slot with the unit value.
\<close>

theorem GetWrapped_writes_slot_once:
  "(p < length (slots m) \<and> result (slots m ! p) = not_ready \<and>
    fn args (user m) = (Inr v, w') \<longrightarrow>
      GetWrapped fn p args m =
        (None, m\<lparr>user := w', slots := (slots m)[p := (slots m ! p)\<lparr>result := ready_value v\<rparr>]\<rparr>) \<and>
      result (slots (snd (GetWrapped fn p args m)) ! p) = ready_value v \<and>
      set_value p v2 (snd (GetWrapped fn p args m)) =
        (Some (future_error promise_already_satisfied), snd (GetWrapped fn p args m))) \<and>
   (p < length (slots mv) \<and> result (slots mv ! p) = not_ready \<and>
    fv argsv (user mv) = (None, wv') \<longrightarrow>
      GetWrapped_void fv p argsv mv =
        (None, mv\<lparr>user := wv', slots := (slots mv)[p := (slots mv ! p)\<lparr>result := ready_value ()\<rparr>]\<rparr>) \<and>
      result (slots (snd (GetWrapped_void fv p argsv mv)) ! p) = ready_value () \<and>
      set_value p () (snd (GetWrapped_void fv p argsv mv)) =
        (Some (future_error promise_already_satisfied), snd (GetWrapped_void fv p argsv mv)))"
  by (simp add: GetWrapped_returns GetWrapped_void_returns set_value_refused)

theorem GetWrapped_writes_slot_once_witness:
  "(case ScheduleAndGetFuture 0 fn_const 42 (sample_pool, sample_memory) of
     (r, pool', m') \<Rightarrow>
       result (slots m' ! 0) = not_ready \<and>
       func (last (work_queue pool')) m' =
         (None, \<lparr>user = 1, slots = [\<lparr>result = ready_value 42, future_retrieved = True\<rparr>]\<rparr>)) \<and>
   (case ScheduleAndGetFuture_void 0 fn_void 42 (sample_pool, sample_memory) of
     (r, pool', m') \<Rightarrow>
       result (slots m' ! 0) = not_ready \<and>
       func (last (work_queue pool')) m' =
         (None, \<lparr>user = 1, slots = [\<lparr>result = ready_value (), future_retrieved = True\<rparr>]\<rparr>))"
  using GetWrapped_writes_slot_once [of 0
      "\<lparr>user = 0, slots = [\<lparr>result = not_ready, future_retrieved = True\<rparr>]\<rparr>" fn_const 42 42 1 0
      "\<lparr>user = 0, slots = [\<lparr>result = not_ready, future_retrieved = True\<rparr>]\<rparr>" fn_void 42 1]
  by (simp add: ScheduleAndGetFuture_eq ScheduleAndGetFuture_void_eq sample_pool_def
      sample_memory_def fn_const_def fn_void_def)

lemma ScheduleAndGetFuture_trace_eq:
  "ScheduleAndGetFuture_trace k fn args (pool, m) =
     [\<lparr>at_line = 190, ret_future_at = None, pool_at = pool,
       mem_at = m\<lparr>slots := slots m @ [\<lparr>result = not_ready, future_retrieved = False\<rparr>]\<rparr>\<rparr>,
      \<lparr>at_line = 191, ret_future_at = Some \<lparr>state_ptr = Some (length (slots m))\<rparr>, pool_at = pool,
       mem_at = m\<lparr>slots := slots m @ [\<lparr>result = not_ready, future_retrieved = True\<rparr>]\<rparr>\<rparr>,
      \<lparr>at_line = 195, ret_future_at = Some \<lparr>state_ptr = Some (length (slots m))\<rparr>, pool_at = pool,
       mem_at = m\<lparr>slots := slots m @ [\<lparr>result = not_ready, future_retrieved = True\<rparr>]\<rparr>\<rparr>,
      \<lparr>at_line = 202, ret_future_at = Some \<lparr>state_ptr = Some (length (slots m))\<rparr>,
       pool_at = pool\<lparr>work_queue := work_queue pool @ [\<lparr>func = GetWrapped fn (length (slots m)) args\<rparr>]\<rparr>,
       mem_at = m\<lparr>slots := slots m @ [\<lparr>result = not_ready, future_retrieved = True\<rparr>]\<rparr>\<rparr>,
      \<lparr>at_line = 204, ret_future_at = Some \<lparr>state_ptr = Some (length (slots m))\<rparr>,
       pool_at = pool\<lparr>work_queue := work_queue pool @ [\<lparr>func = GetWrapped fn (length (slots m)) args\<rparr>],
                     condvar := notify_one k (condvar pool)\<rparr>,
       mem_at = m\<lparr>slots := slots m @ [\<lparr>result = not_ready, future_retrieved = True\<rparr>]\<rparr>\<rparr>]"
  by (simp add: ScheduleAndGetFuture_trace_def make_shared_promise_eq get_future_fresh emplace_def
      Let_def)

lemma ScheduleAndGetFuture_void_trace_eq:
  "ScheduleAndGetFuture_void_trace k fn args (pool, m) =
     [\<lparr>at_line = 190, ret_future_at = None, pool_at = pool,
       mem_at = m\<lparr>slots := slots m @ [\<lparr>result = not_ready, future_retrieved = False\<rparr>]\<rparr>\<rparr>,
      \<lparr>at_line = 191, ret_future_at = Some \<lparr>state_ptr = Some (length (slots m))\<rparr>, pool_at = pool,
       mem_at = m\<lparr>slots := slots m @ [\<lparr>result = not_ready, future_retrieved = True\<rparr>]\<rparr>\<rparr>,
      \<lparr>at_line = 195, ret_future_at = Some \<lparr>state_ptr = Some (length (slots m))\<rparr>, pool_at = pool,
       mem_at = m\<lparr>slots := slots m @ [\<lparr>result = not_ready, future_retrieved = True\<rparr>]\<rparr>\<rparr>,
      \<lparr>at_line = 202, ret_future_at = Some \<lparr>state_ptr = Some (length (slots m))\<rparr>,
       pool_at = pool\<lparr>work_queue := work_queue pool @ [\<lparr>func = GetWrapped_void fn (length (slots m)) args\<rparr>]\<rparr>,
       mem_at = m\<lparr>slots := slots m @ [\<lparr>result = not_ready, future_retrieved = True\<rparr>]\<rparr>\<rparr>,
      \<lparr>at_line = 204, ret_future_at = Some \<lparr>state_ptr = Some (length (slots m))\<rparr>,
       pool_at = pool\<lparr>work_queue := work_queue pool @ [\<lparr>func = GetWrapped_void fn (length (slots m)) args\<rparr>],
                     condvar := notify_one k (condvar pool)\<rparr>,
       mem_at = m\<lparr>slots := slots m @ [\<lparr>result = not_ready, future_retrieved = True\<rparr>]\<rparr>\<rparr>]"
  by (simp add: ScheduleAndGetFuture_void_trace_def make_shared_promise_eq get_future_fresh
      emplace_def Let_def)

text \<open>What the enqueued item does when it is run on the memory the call leaves.\<close>

lemma GetWrapped_on_fresh_slot:
  "GetWrapped fn (length (slots m)) args
     (m\<lparr>slots := slots m @ [\<lparr>result = not_ready, future_retrieved = True\<rparr>]\<rparr>) =
   (case fn args (user m) of
      (Inl e, w') \<Rightarrow>
        (Some e, m\<lparr>user := w', slots := slots m @ [\<lparr>result = not_ready, future_retrieved = True\<rparr>]\<rparr>)
    | (Inr v, w') \<Rightarrow>
        (None, m\<lparr>user := w', slots := slots m @ [\<lparr>result = ready_value v, future_retrieved = True\<rparr>]\<rparr>))"
  by (simp add: GetWrapped_def set_value_def split: prod.splits sum.splits)

lemma GetWrapped_void_on_fresh_slot:
  "GetWrapped_void fn (length (slots m)) args
     (m\<lparr>slots := slots m @ [\<lparr>result = not_ready, future_retrieved = True\<rparr>]\<rparr>) =
   (case fn args (user m) of
      (Some e, w') \<Rightarrow>
        (Some e, m\<lparr>user := w', slots := slots m @ [\<lparr>result = not_ready, future_retrieved = True\<rparr>]\<rparr>)
    | (None, w') \<Rightarrow>
        (None, m\<lparr>user := w', slots := slots m @ [\<lparr>result = ready_value (), future_retrieved = True\<rparr>]\<rparr>))"
  by (simp add: GetWrapped_void_def set_value_def split: prod.splits option.splits)

text \<open>
  Claim C8. Along the statements of one call of \<open>ScheduleAndGetFuture\<close>, \<open>ret_future\<close> is
  bound at line 191, to a fresh slot that is not ready, and it is the same valid handle at
  every later point. At that point and at the next one the queue is still as the caller
  left it; the item is in the queue only from line 202 on, as one new last element. The
  call returns this handle together with the pool and the memory of the last point. On
  return the function has not run: the user state is untouched and \<open>Get()\<close> on the handle
  would block. The enqueued item is bound to the handle's slot: run on the memory the
  call leaves, it makes \<open>Get()\<close> return the function's value, or ends with the function's
  failure. The same holds for the \<open>void\<close> instance.
\<close>

theorem ScheduleAndGetFuture_handle_before_enqueue:
  "(let tr = ScheduleAndGetFuture_trace k fn args (pool, m);
        h = \<lparr>state_ptr = Some (length (slots m))\<rparr>;
        enqueued = last (work_queue (pool_at (tr ! 3)))
    in map at_line tr = [190, 191, 195, 202, 204] \<and>
       map ret_future_at tr = [None, Some h, Some h, Some h, Some h] \<and>
       map (\<lambda>pt. work_queue (pool_at pt)) (take 3 tr) =
         [work_queue pool, work_queue pool, work_queue pool] \<and>
       valid h \<and>
       result (slots (mem_at (tr ! 1)) ! length (slots m)) = not_ready \<and>
       length (slots (mem_at (tr ! 1))) = Suc (length (slots m)) \<and>
       butlast (work_queue (pool_at (tr ! 3))) = work_queue pool \<and>
       length (work_queue (pool_at (tr ! 3))) = Suc (length (work_queue pool)) \<and>
       work_queue (pool_at (tr ! 4)) = work_queue (pool_at (tr ! 3)) \<and>
       ScheduleAndGetFuture k fn args (pool, m) = (Inr h, pool_at (tr ! 4), mem_at (tr ! 4)) \<and>
       user (mem_at (tr ! 4)) = user m \<and>
       future_get h (mem_at (tr ! 4)) = (blocks, h) \<and>
       (case fn args (user m) of
          (Inl e, w') \<Rightarrow>
            fst (func enqueued (mem_at (tr ! 4))) = Some e \<and>
            fst (future_get h (snd (func enqueued (mem_at (tr ! 4))))) = blocks
        | (Inr v, w') \<Rightarrow>
            fst (func enqueued (mem_at (tr ! 4))) = None \<and>
            user (snd (func enqueued (mem_at (tr ! 4)))) = w' \<and>
            fst (future_get h (snd (func enqueued (mem_at (tr ! 4))))) = returns v)) \<and>
   (let tr = ScheduleAndGetFuture_void_trace k fv argsv (poolv, mv);
        h = \<lparr>state_ptr = Some (length (slots mv))\<rparr>;
        enqueued = last (work_queue (pool_at (tr ! 3)))
    in map at_line tr = [190, 191, 195, 202, 204] \<and>
       map ret_future_at tr = [None, Some h, Some h, Some h, Some h] \<and>
       map (\<lambda>pt. work_queue (pool_at pt)) (take 3 tr) =
         [work_queue poolv, work_queue poolv, work_queue poolv] \<and>
       result (slots (mem_at (tr ! 1)) ! length (slots mv)) = not_ready \<and>
       length (slots (mem_at (tr ! 1))) = Suc (length (slots mv)) \<and>
       butlast (work_queue (pool_at (tr ! 3))) = work_queue poolv \<and>
       length (work_queue (pool_at (tr ! 3))) = Suc (length (work_queue poolv)) \<and>
       work_queue (pool_at (tr ! 4)) = work_queue (pool_at (tr ! 3)) \<and>
       ScheduleAndGetFuture_void k fv argsv (poolv, mv) =
         (Inr h, pool_at (tr ! 4), mem_at (tr ! 4)) \<and>
       user (mem_at (tr ! 4)) = user mv \<and>
       future_get h (mem_at (tr ! 4)) = (blocks, h) \<and>
       (case fv argsv (user mv) of
          (Some e, w') \<Rightarrow>
            fst (func enqueued (mem_at (tr ! 4))) = Some e \<and>
            fst (future_get h (snd (func enqueued (mem_at (tr ! 4))))) = blocks
        | (None, w') \<Rightarrow>
            fst (func enqueued (mem_at (tr ! 4))) = None \<and>
            user (snd (func enqueued (mem_at (tr ! 4)))) = w' \<and>
            fst (future_get h (snd (func enqueued (mem_at (tr ! 4))))) = returns ()))"
  unfolding Let_def ScheduleAndGetFuture_trace_eq ScheduleAndGetFuture_void_trace_eq
    ScheduleAndGetFuture_eq ScheduleAndGetFuture_void_eq
  by (simp add: valid_def future_get_def GetWrapped_on_fresh_slot GetWrapped_void_on_fresh_slot
      numeral_3_eq_3 split: prod.splits sum.splits option.splits)

theorem ScheduleAndGetFuture_handle_before_enqueue_witness:
  "map (\<lambda>pt. (at_line pt, ret_future_at pt, length (work_queue (pool_at pt))))
     (ScheduleAndGetFuture_trace 0 fn_const 42 (sample_pool, sample_memory)) =
     [(190, None, 0), (191, Some \<lparr>state_ptr = Some 0\<rparr>, 0), (195, Some \<lparr>state_ptr = Some 0\<rparr>, 0),
      (202, Some \<lparr>state_ptr = Some 0\<rparr>, 1), (204, Some \<lparr>state_ptr = Some 0\<rparr>, 1)] \<and>
   fst (ScheduleAndGetFuture 0 fn_const 42 (sample_pool, sample_memory)) =
     Inr \<lparr>state_ptr = Some 0\<rparr> \<and>
   fst (future_get \<lparr>state_ptr = Some 0\<rparr>
         (snd (func
           (last (work_queue
             (pool_at (ScheduleAndGetFuture_trace 0 fn_const 42 (sample_pool, sample_memory) ! 3))))
           (mem_at (ScheduleAndGetFuture_trace 0 fn_const 42 (sample_pool, sample_memory) ! 4))))) =
     returns 42"
  using ScheduleAndGetFuture_handle_before_enqueue [of 0 fn_const 42 sample_pool sample_memory
      fn_void 42 sample_pool sample_memory]
  by (simp add: ScheduleAndGetFuture_trace_eq ScheduleAndGetFuture_eq sample_pool_def
      sample_memory_def GetWrapped_def set_value_def fn_const_def future_get_def numeral_3_eq_3)

section \<open>The running system: invariants\<close>

lemma in_flight_start:
  "w < length ts \<Longrightarrow> is_Waiting (ts ! w) \<Longrightarrow>
     mset (in_flight (ts[w := Executing i])) = add_mset i (mset (in_flight ts))"
proof (induction ts arbitrary: w)
  case Nil
  then show ?case by simp
next
  case (Cons a ts)
  show ?case
  proof (cases w)
    case 0
    with Cons.prems show ?thesis by (cases a) simp_all
  next
    case (Suc v)
    with Cons show ?thesis by (cases a) simp_all
  qed
qed

lemma in_flight_finish:
  "w < length ts \<Longrightarrow> ts ! w = Executing i \<Longrightarrow>
     add_mset i (mset (in_flight (ts[w := Waiting]))) = mset (in_flight ts)"
proof (induction ts arbitrary: w)
  case Nil
  then show ?case by simp
next
  case (Cons a ts)
  show ?case
  proof (cases w)
    case 0
    with Cons.prems show ?thesis by simp
  next
    case (Suc v)
    with Cons show ?thesis by (cases a) simp_all
  qed
qed

lemma in_flight_exit:
  "w < length ts \<Longrightarrow> is_Waiting (ts ! w) \<Longrightarrow> in_flight (ts[w := Exiting]) = in_flight ts"
proof (induction ts arbitrary: w)
  case Nil
  then show ?case by simp
next
  case (Cons a ts)
  show ?case
  proof (cases w)
    case 0
    with Cons.prems show ?thesis by (cases a) simp_all
  next
    case (Suc v)
    with Cons show ?thesis by (cases a) simp_all
  qed
qed

lemma Schedule_eq:
  "Schedule k f pool =
     pool\<lparr>work_queue := work_queue pool @ [\<lparr>func = f\<rparr>], condvar := notify_one k (condvar pool)\<rparr>"
  by (simp add: Schedule_def emplace_def)

lemma step_fifo:
  assumes "fifo_inv s" and "step e s = Some s'"
  shows "fifo_inv s'"
proof (cases e)
  case (Worker_dequeue w)
  with assms show ?thesis
    by (auto simp: fifo_inv_def worker_dequeue_def split: if_splits list.splits)
next
  case (Worker_finish w)
  with assms show ?thesis
    by (auto simp: fifo_inv_def worker_finish_def Let_def split: if_splits worker_state.splits prod.splits)
qed (use assms in \<open>auto simp: fifo_inv_def Schedule_eq ScheduleAndGetFuture_eq worker_block_def
      worker_exit_def wait_block_def wait_return_def teardown_begin_def teardown_end_def
      split: if_splits\<close>)

lemma run_invariant:
  fixes evs :: "('w, 'r, 'args) event list"
  assumes step: "\<And>(e :: ('w, 'r, 'args) event) s s'. P s \<Longrightarrow> step e s = Some s' \<Longrightarrow> P s'"
  shows "P s \<Longrightarrow> run evs s = Some s' \<Longrightarrow> P s'"
proof (induction evs arbitrary: s)
  case Nil
  then show ?case by simp
next
  case (Cons e evs)
  from Cons.prems(2) obtain s1 where s1: "step e s = Some s1" and rest: "run evs s1 = Some s'"
    by (auto split: option.splits)
  from step [OF Cons.prems(1) s1] have "P s1" .
  from Cons.IH [OF this rest] show ?case .
qed

lemma worker_dequeue_SomeD:
  assumes "worker_dequeue w s = Some s'"
  obtains work_item rest where "idle w s" and "work_queue (thread_pool s) = work_item # rest"
    and "s' = s\<lparr>thread_pool := (thread_pool s)\<lparr>work_queue := rest\<rparr>,
                threads := (threads s)[w := Executing work_item],
                dequeued := dequeued s @ [work_item]\<rparr>"
  using assms by (auto simp: worker_dequeue_def split: if_splits list.splits)

lemma worker_finish_SomeD:
  assumes "worker_finish w s = Some s'"
  obtains work_item where "w < length (threads s)" and "threads s ! w = Executing work_item"
    and "threads s' = (threads s)[w := Waiting]"
    and "executed s' = executed s @ [work_item]"
    and "dequeued s' = dequeued s" and "submitted s' = submitted s" and "phase s' = phase s"
    and "mem s' = snd (func work_item (mem s))"
    and "work_queue (thread_pool s') = work_queue (thread_pool s)"
    and "exit_flag (thread_pool s') = exit_flag (thread_pool s)"
    and "condvar (thread_pool s') = condvar (thread_pool s)"
  using assms
  by (auto simp: worker_finish_def Let_def split: if_splits worker_state.splits prod.splits)

lemma worker_exit_SomeD:
  assumes "worker_exit w s = Some s'"
  shows "idle w s \<and> exit_flag (thread_pool s) \<and> work_queue (thread_pool s) = [] \<and>
         s' = s\<lparr>threads := (threads s)[w := Exiting]\<rparr>"
  using assms by (simp add: worker_exit_def split: if_splits)

lemma step_conservation:
  assumes inv: "conservation_inv s" and st: "step e s = Some s'"
  shows "conservation_inv s'"
proof (cases e)
  case (Schedule_call k f)
  with inv st show ?thesis
    by (simp add: conservation_inv_def split: if_splits) auto
next
  case (ScheduleAndGetFuture_call k fn args)
  with inv st show ?thesis
    by (simp add: conservation_inv_def ScheduleAndGetFuture_eq split: if_splits) auto
next
  case (Worker_block w)
  with inv st show ?thesis
    by (simp add: conservation_inv_def worker_block_def split: if_splits) auto
next
  case (Worker_dequeue w)
  with st have "worker_dequeue w s = Some s'" by simp
  then show ?thesis
  proof (rule worker_dequeue_SomeD)
    fix work_item rest
    assume "idle w s" and s': "s' = s\<lparr>thread_pool := (thread_pool s)\<lparr>work_queue := rest\<rparr>,
                threads := (threads s)[w := Executing work_item],
                dequeued := dequeued s @ [work_item]\<rparr>"
    then have "mset (in_flight (threads s')) = add_mset work_item (mset (in_flight (threads s)))"
      by (simp add: idle_def in_flight_start)
    with inv s' show ?thesis by (simp add: conservation_inv_def)
  qed
next
  case (Worker_finish w)
  with st have "worker_finish w s = Some s'" by simp
  then show ?thesis
  proof (rule worker_finish_SomeD)
    fix work_item
    assume "w < length (threads s)" and "threads s ! w = Executing work_item"
      and ts: "threads s' = (threads s)[w := Waiting]"
      and ex: "executed s' = executed s @ [work_item]"
      and dq: "dequeued s' = dequeued s"
    then have "add_mset work_item (mset (in_flight (threads s'))) = mset (in_flight (threads s))"
      by (simp add: in_flight_finish)
    with inv ex dq show ?thesis by (simp add: conservation_inv_def)
  qed
next
  case (Worker_exit w)
  with st have "worker_exit w s = Some s'" by simp
  from worker_exit_SomeD [OF this] inv show ?thesis
    by (simp add: conservation_inv_def idle_def in_flight_exit)
next
  case (Wait_block t)
  with inv st show ?thesis
    by (simp add: conservation_inv_def wait_block_def split: if_splits) auto
next
  case (Wait_return t)
  with inv st show ?thesis
    by (simp add: conservation_inv_def wait_return_def split: if_splits)
next
  case Teardown_begin
  with inv st show ?thesis
    by (simp add: conservation_inv_def teardown_begin_def split: if_splits) auto
next
  case Teardown_end
  with inv st show ?thesis
    by (simp add: conservation_inv_def teardown_end_def split: if_splits) auto
qed


lemma all_Exiting_nth:
  "list_all is_Exiting ts \<Longrightarrow> w < length ts \<Longrightarrow> is_Exiting (ts ! w)"
  by (simp add: list_all_length)

lemma all_Exiting_update:
  "list_all is_Exiting ts \<Longrightarrow> list_all is_Exiting (ts[w := Exiting])"
  using set_update_subset_insert [of ts w Exiting] by (auto simp: list_all_iff)

lemma step_teardown:
  assumes inv: "teardown_inv s" and st: "step e s = Some s'"
  shows "teardown_inv s'"
proof (cases e)
  case (Schedule_call k f)
  with inv st show ?thesis
    by (simp add: teardown_inv_def split: if_splits) auto
next
  case (ScheduleAndGetFuture_call k fn args)
  with inv st show ?thesis
    by (simp add: teardown_inv_def ScheduleAndGetFuture_eq split: if_splits) auto
next
  case (Worker_block w)
  with inv st show ?thesis
    by (simp add: teardown_inv_def worker_block_def split: if_splits) auto
next
  case (Worker_dequeue w)
  with st have "worker_dequeue w s = Some s'" by simp
  then show ?thesis
  proof (rule worker_dequeue_SomeD)
    fix work_item rest
    assume idle: "idle w s" and s': "s' = s\<lparr>thread_pool := (thread_pool s)\<lparr>work_queue := rest\<rparr>,
                threads := (threads s)[w := Executing work_item],
                dequeued := dequeued s @ [work_item]\<rparr>"
    have "phase s \<noteq> Destroyed"
    proof
      assume "phase s = Destroyed"
      with inv have "list_all is_Exiting (threads s)" by (simp add: teardown_inv_def)
      with idle have "is_Exiting (threads s ! w)" by (simp add: idle_def all_Exiting_nth)
      with idle show False by (cases "threads s ! w") (simp_all add: idle_def)
    qed
    with inv s' show ?thesis by (simp add: teardown_inv_def)
  qed
next
  case (Worker_finish w)
  with st have "worker_finish w s = Some s'" by simp
  then show ?thesis
  proof (rule worker_finish_SomeD)
    fix work_item
    assume w: "w < length (threads s)" and ex: "threads s ! w = Executing work_item"
      and rest: "phase s' = phase s" "exit_flag (thread_pool s') = exit_flag (thread_pool s)"
        "condvar (thread_pool s') = condvar (thread_pool s)"
    have "phase s \<noteq> Destroyed"
    proof
      assume "phase s = Destroyed"
      with inv have "list_all is_Exiting (threads s)" by (simp add: teardown_inv_def)
      with w have "is_Exiting (threads s ! w)" by (simp add: all_Exiting_nth)
      with ex show False by simp
    qed
    with inv rest show ?thesis by (simp add: teardown_inv_def)
  qed
next
  case (Worker_exit w)
  with st have "worker_exit w s = Some s'" by simp
  from worker_exit_SomeD [OF this] inv show ?thesis
    by (auto simp: teardown_inv_def all_Exiting_update)
next
  case (Wait_block t)
  with inv st show ?thesis
    by (simp add: teardown_inv_def wait_block_def split: if_splits) auto
next
  case (Wait_return t)
  with inv st show ?thesis
    by (simp add: teardown_inv_def wait_return_def split: if_splits)
next
  case Teardown_begin
  with inv st show ?thesis
    by (simp add: teardown_inv_def teardown_begin_def notify_all_def split: if_splits) auto
next
  case Teardown_end
  with inv st show ?thesis
    by (simp add: teardown_inv_def teardown_end_def split: if_splits) auto
qed

lemma in_flight_start_nonempty:
  assumes "w < length ts" and "is_Waiting (ts ! w)"
  shows "in_flight (ts[w := Executing i]) \<noteq> []"
proof
  assume "in_flight (ts[w := Executing i]) = []"
  then have "mset (in_flight (ts[w := Executing i])) = {#}" by simp
  with in_flight_start [OF assms, of i] show False by simp
qed

lemma step_wait:
  assumes inv: "wait_inv s" and st: "step e s = Some s'"
  shows "wait_inv s'"
proof (cases e)
  case (Schedule_call k f)
  with st have "work_queue (thread_pool s') \<noteq> []"
    by (simp add: Schedule_eq split: if_splits) auto
  then show ?thesis by (simp add: wait_inv_def all_done_def)
next
  case (ScheduleAndGetFuture_call k fn args)
  with st have "work_queue (thread_pool s') \<noteq> []"
    by (simp add: ScheduleAndGetFuture_eq split: if_splits) auto
  then show ?thesis by (simp add: wait_inv_def all_done_def)
next
  case (Worker_block w)
  with inv st show ?thesis
    by (simp add: wait_inv_def all_done_def worker_block_def split: if_splits) auto
next
  case (Worker_dequeue w)
  with st have "worker_dequeue w s = Some s'" by simp
  then show ?thesis
  proof (rule worker_dequeue_SomeD)
    fix work_item rest
    assume idle: "idle w s" and s': "s' = s\<lparr>thread_pool := (thread_pool s)\<lparr>work_queue := rest\<rparr>,
                threads := (threads s)[w := Executing work_item],
                dequeued := dequeued s @ [work_item]\<rparr>"
    then have "in_flight (threads s') \<noteq> []"
      by (simp add: idle_def in_flight_start_nonempty)
    then show ?thesis by (simp add: wait_inv_def all_done_def)
  qed
next
  case (Worker_finish w)
  with st have "worker_finish w s = Some s'" by simp
  then show ?thesis
    by (auto simp: wait_inv_def all_done_def worker_finish_def Let_def notify_all_def
        split: if_splits worker_state.splits prod.splits)
next
  case (Worker_exit w)
  with st have "worker_exit w s = Some s'" by simp
  from worker_exit_SomeD [OF this] inv show ?thesis
    by (simp add: wait_inv_def all_done_def idle_def in_flight_exit)
next
  case (Wait_block t)
  with inv st show ?thesis
    by (simp add: wait_inv_def all_done_def wait_block_def split: if_splits) auto
next
  case (Wait_return t)
  with inv st show ?thesis
    by (simp add: wait_inv_def wait_return_def split: if_splits)
next
  case Teardown_begin
  with inv st show ?thesis
    by (simp add: wait_inv_def all_done_def teardown_begin_def split: if_splits) auto
next
  case Teardown_end
  with inv st show ?thesis
    by (simp add: wait_inv_def all_done_def teardown_end_def split: if_splits) auto
qed


lemma worker_dequeue_frame:
  assumes "worker_dequeue w s = Some s'"
  shows "length (threads s') = length (threads s) \<and> submitted s' = submitted s \<and>
         phase s' = phase s"
  using assms by (rule worker_dequeue_SomeD) simp

lemma worker_finish_frame:
  assumes "worker_finish w s = Some s'"
  shows "length (threads s') = length (threads s) \<and> submitted s' = submitted s \<and>
         phase s' = phase s"
  using assms by (rule worker_finish_SomeD) simp

lemma step_ghost:
  assumes "step e s = Some s'"
  shows "length (submitted s') = length (submitted s) + (if is_submission e then 1 else 0) \<and>
         length (threads s') = length (threads s)"
proof (cases e)
  case (Worker_dequeue w)
  with assms have "worker_dequeue w s = Some s'" by simp
  from worker_dequeue_frame [OF this] Worker_dequeue show ?thesis by simp
next
  case (Worker_finish w)
  with assms have "worker_finish w s = Some s'" by simp
  from worker_finish_frame [OF this] Worker_finish show ?thesis by simp
next
  case (Worker_exit w)
  with assms have "worker_exit w s = Some s'" by simp
  from worker_exit_SomeD [OF this] Worker_exit show ?thesis by simp
qed (use assms in \<open>auto simp: ScheduleAndGetFuture_eq worker_block_def wait_block_def
      wait_return_def teardown_begin_def teardown_end_def split: if_splits\<close>)

lemma run_ghost:
  "run evs s = Some s' \<Longrightarrow>
     length (submitted s') = length (submitted s) + length (filter is_submission evs) \<and>
     length (threads s') = length (threads s)"
proof (induction evs arbitrary: s)
  case Nil
  then show ?case by simp
next
  case (Cons e evs)
  from Cons.prems obtain s1 where s1: "step e s = Some s1" and rest: "run evs s1 = Some s'"
    by (auto split: option.splits)
  from step_ghost [OF s1] Cons.IH [OF rest] show ?case by simp
qed

lemma step_phase:
  assumes "step e s = Some s'"
  shows "(e = Teardown_begin \<longrightarrow> phase s = Running \<and> phase s' = TearingDown) \<and>
         (e = Teardown_end \<longrightarrow> phase s = TearingDown \<and> phase s' = Destroyed) \<and>
         (e \<noteq> Teardown_begin \<and> e \<noteq> Teardown_end \<longrightarrow> phase s' = phase s)"
proof (cases e)
  case (Worker_dequeue w)
  with assms have "worker_dequeue w s = Some s'" by simp
  from worker_dequeue_frame [OF this] Worker_dequeue show ?thesis by simp
next
  case (Worker_finish w)
  with assms have "worker_finish w s = Some s'" by simp
  from worker_finish_frame [OF this] Worker_finish show ?thesis by simp
next
  case (Worker_exit w)
  with assms have "worker_exit w s = Some s'" by simp
  from worker_exit_SomeD [OF this] Worker_exit show ?thesis by simp
qed (use assms in \<open>auto simp: ScheduleAndGetFuture_eq worker_block_def wait_block_def
      wait_return_def teardown_begin_def teardown_end_def split: if_splits\<close>)

lemma run_phase:
  "run evs s = Some s' \<Longrightarrow>
     count_list evs Teardown_begin = (if phase s = Running \<and> phase s' \<noteq> Running then 1 else 0) \<and>
     count_list evs Teardown_end = (if phase s \<noteq> Destroyed \<and> phase s' = Destroyed then 1 else 0) \<and>
     (phase s \<noteq> Running \<longrightarrow> phase s' \<noteq> Running) \<and>
     (phase s = Destroyed \<longrightarrow> phase s' = Destroyed)"
proof (induction evs arbitrary: s)
  case Nil
  then show ?case by simp
next
  case (Cons e evs)
  from Cons.prems obtain s1 where s1: "step e s = Some s1" and rest: "run evs s1 = Some s'"
    by (auto split: option.splits)
  note ph = step_phase [OF s1] and ih = Cons.IH [OF rest]
  consider "e = Teardown_begin" | "e = Teardown_end" | "e \<noteq> Teardown_begin" "e \<noteq> Teardown_end"
    by blast
  then show ?case
  proof cases
    case 1
    with ph ih show ?thesis by (cases "phase s'") simp_all
  next
    case 2
    with ph ih show ?thesis by (cases "phase s'") simp_all
  next
    case 3
    with ph ih show ?thesis by simp
  qed
qed

lemma ThreadPool_new_invs:
  assumes "ThreadPool_new n m = Some s0"
  shows "fifo_inv s0" and "conservation_inv s0" and "teardown_inv s0" and "wait_inv s0"
    and "phase s0 = Running" and "submitted s0 = []" and "length (threads s0) = nat n"
proof -
  have in_flight_replicate: "in_flight (replicate k Waiting) = []" for k
    by (induction k) simp_all
  from assms have s0: "s0 =
        \<lparr>thread_pool = \<lparr>num_workers = n, exit_flag = False, work_queue = [], condvar = [],
                 workers = [0..<nat n], work_done_condvar = []\<rparr>,
         mem = m, threads = replicate (nat n) Waiting, phase = Running,
         submitted = [], dequeued = [], executed = []\<rparr>"
    by (simp add: ThreadPool_new_def split: if_splits)
  show "fifo_inv s0" by (simp add: s0 fifo_inv_def)
  show "conservation_inv s0" by (simp add: s0 conservation_inv_def in_flight_replicate)
  show "teardown_inv s0" by (simp add: s0 teardown_inv_def)
  show "wait_inv s0" by (simp add: s0 wait_inv_def)
  show "phase s0 = Running" by (simp add: s0)
  show "submitted s0 = []" by (simp add: s0)
  show "length (threads s0) = nat n" by (simp add: s0)
qed


text \<open>The definitions a concrete run unfolds.\<close>

lemmas step_defs =
  ThreadPool_new_def Schedule_def emplace_def notify_one_def notify_all_def worker_block_def
  worker_dequeue_def worker_finish_def worker_exit_def wait_block_def wait_return_def
  teardown_begin_def teardown_end_def idle_def all_done_def add_user_def Let_def
  sample_memory_def numeral_2_eq_2

section \<open>\<open>Wait\<close>, dequeue order and teardown\<close>

text \<open>
  Claim C3. Take a pool of any worker count \<open>n \<ge> 0\<close> and any run of the system, and let
  a call of \<open>Wait\<close> return in the state reached. \<open>Wait\<close> returns only when the queue is
  empty and no worker is executing an item (until then the caller is blocked), and at
  that point the items executed are exactly the items submitted, each as often as it was
  submitted: as multisets they are equal, and their number is the number of submissions
  of the run. No caller is left blocked on \<open>work_done_condvar\<close> in such a state.
\<close>

theorem Wait_returns_when_all_executed:
  fixes evs :: "('w, 'r, 'args) event list"
  assumes "ThreadPool_new n m = Some s0" and "run evs s0 = Some s"
    and "wait_return t s = Some s'"
  shows "s' = s \<and> work_queue (thread_pool s) = [] \<and> in_flight (threads s) = [] \<and>
         mset (executed s) = mset (submitted s) \<and>
         length (submitted s) = length (filter is_submission evs) \<and>
         length (executed s) = length (filter is_submission evs) \<and>
         work_done_condvar (thread_pool s) = []"
proof -
  from assms(3) have ret: "s' = s" and fin: "all_done s"
    by (simp_all add: wait_return_def split: if_splits)
  note init = ThreadPool_new_invs [OF assms(1)]
  have fifo: "fifo_inv s"
    using step_fifo init(1) assms(2) by (rule run_invariant)
  have cons: "conservation_inv s"
    using step_conservation init(2) assms(2) by (rule run_invariant)
  have wait: "wait_inv s"
    using step_wait init(4) assms(2) by (rule run_invariant)
  from fin have q: "work_queue (thread_pool s) = []" and f: "in_flight (threads s) = []"
    by (simp_all add: all_done_def)
  from fifo q have sub: "submitted s = dequeued s" by (simp add: fifo_inv_def)
  from cons f have "mset (dequeued s) = mset (executed s)" by (simp add: conservation_inv_def)
  with sub have ms: "mset (executed s) = mset (submitted s)" by simp
  then have "size (mset (executed s)) = size (mset (submitted s))" by simp
  then have len: "length (executed s) = length (submitted s)" by simp
  from run_ghost [OF assms(2)] init(6)
  have "length (submitted s) = length (filter is_submission evs)" by simp
  with ret q f ms len wait fin show ?thesis by (simp add: wait_inv_def)
qed

theorem Wait_returns_when_all_executed_witness:
  "case ThreadPool_new 2 sample_memory of
     None \<Rightarrow> False
   | Some s0 \<Rightarrow>
       (case run sample_run_wait s0 of
          None \<Rightarrow> False
        | Some s \<Rightarrow>
            wait_return 7 s = Some s \<and>
            length (filter is_submission sample_run_wait) = 3 \<and>
            executed s = [\<lparr>func = add_user 1\<rparr>, \<lparr>func = add_user 1\<rparr>, \<lparr>func = add_user 1\<rparr>] \<and>
            submitted s = executed s \<and>
            user (mem s) = 3)"
  using Wait_returns_when_all_executed [of 2 sample_memory
      "the (ThreadPool_new 2 sample_memory)" sample_run_wait
      "the (run sample_run_wait (the (ThreadPool_new 2 sample_memory)))" 7
      "the (run sample_run_wait (the (ThreadPool_new 2 sample_memory)))"]
  by (simp add: sample_run_wait_def step_defs)


text \<open>
  Claim C4. In every state a run reaches, the items dequeued so far are, in the order of
  their dequeue, the first items of the enqueue order, and the queue holds the rest in
  that order; a dequeue step of any worker hands it the oldest item not yet dequeued. So
  of two items the one enqueued first is dequeued first. Completion is not ordered: in
  the sample run that follows, the item dequeued second completes first.
\<close>

theorem dequeue_order_is_enqueue_order:
  fixes evs :: "('w, 'r, 'args) event list"
  assumes "ThreadPool_new n m = Some s0" and "run evs s0 = Some s"
  shows "dequeued s = take (length (dequeued s)) (submitted s) \<and>
         work_queue (thread_pool s) = drop (length (dequeued s)) (submitted s) \<and>
         (\<forall>w s'. worker_dequeue w s = Some s' \<longrightarrow>
            length (dequeued s) < length (submitted s) \<and>
            threads s' ! w = Executing (submitted s ! length (dequeued s)) \<and>
            dequeued s' = dequeued s @ [submitted s ! length (dequeued s)] \<and>
            submitted s' = submitted s)"
proof -
  note init = ThreadPool_new_invs [OF assms(1)]
  have "fifo_inv s"
    using step_fifo init(1) assms(2) by (rule run_invariant)
  then have fifo: "submitted s = dequeued s @ work_queue (thread_pool s)"
    by (simp add: fifo_inv_def)
  have "\<And>w s'. worker_dequeue w s = Some s' \<Longrightarrow>
      length (dequeued s) < length (submitted s) \<and>
      threads s' ! w = Executing (submitted s ! length (dequeued s)) \<and>
      dequeued s' = dequeued s @ [submitted s ! length (dequeued s)] \<and>
      submitted s' = submitted s"
  proof -
    fix w s'
    assume "worker_dequeue w s = Some s'"
    then show "length (dequeued s) < length (submitted s) \<and>
      threads s' ! w = Executing (submitted s ! length (dequeued s)) \<and>
      dequeued s' = dequeued s @ [submitted s ! length (dequeued s)] \<and>
      submitted s' = submitted s"
    proof (rule worker_dequeue_SomeD)
      fix work_item rest
      assume idle: "idle w s" and q: "work_queue (thread_pool s) = work_item # rest"
        and s': "s' = s\<lparr>thread_pool := (thread_pool s)\<lparr>work_queue := rest\<rparr>,
                threads := (threads s)[w := Executing work_item],
                dequeued := dequeued s @ [work_item]\<rparr>"
      from fifo q have "submitted s ! length (dequeued s) = work_item"
        and "length (dequeued s) < length (submitted s)"
        by simp_all
      with idle s' show ?thesis by (simp add: idle_def)
    qed
  qed
  with fifo show ?thesis by simp
qed

theorem dequeue_order_is_enqueue_order_witness:
  "case ThreadPool_new 2 sample_memory of
     None \<Rightarrow> False
   | Some s0 \<Rightarrow>
       (case run sample_run_fifo s0 of
          None \<Rightarrow> False
        | Some s \<Rightarrow>
            submitted s =
              [\<lparr>func = add_user 1\<rparr>, \<lparr>func = add_user 2\<rparr>, \<lparr>func = GetWrapped fn_const 0 42\<rparr>] \<and>
            dequeued s = [\<lparr>func = add_user 1\<rparr>, \<lparr>func = add_user 2\<rparr>] \<and>
            executed s = [\<lparr>func = add_user 2\<rparr>] \<and>
            in_flight (threads s) = [\<lparr>func = add_user 1\<rparr>] \<and>
            (case worker_dequeue 0 s of
               None \<Rightarrow> False
             | Some s' \<Rightarrow> threads s' ! 0 = Executing \<lparr>func = GetWrapped fn_const 0 42\<rparr>))"
  using dequeue_order_is_enqueue_order [of 2 sample_memory
      "the (ThreadPool_new 2 sample_memory)" sample_run_fifo
      "the (run sample_run_fifo (the (ThreadPool_new 2 sample_memory)))"]
  by (simp add: sample_run_fifo_def step_defs ScheduleAndGetFuture_eq)

text \<open>
  Claim C5. The first step of the destructor sets \<open>exit_\<close> and empties the set of workers
  blocked on \<open>condvar\<close>; from then on the flag stays set and no worker is blocked there.
  The destructor returns only when all workers have exited, so in a state where it has
  returned every one of the \<open>n\<close> workers has exited. It cannot begin a second time, and a
  run that has reached teardown contains exactly one begin step (and exactly one return
  once the pool is destroyed).
\<close>

theorem teardown_sets_flag_wakes_and_joins:
  fixes evs :: "('w, 'r, 'args) event list"
  assumes "ThreadPool_new n m = Some s0" and "run evs s0 = Some s"
  shows "(phase s = Running \<longrightarrow> count_list evs Teardown_begin = 0) \<and>
         (phase s \<noteq> Running \<longrightarrow>
            exit_flag (thread_pool s) \<and> condvar (thread_pool s) = [] \<and>
            count_list evs Teardown_begin = 1 \<and> teardown_begin s = None) \<and>
         (phase s = Destroyed \<longrightarrow>
            list_all is_Exiting (threads s) \<and> length (threads s) = nat n \<and>
            count_list evs Teardown_end = 1) \<and>
         (\<forall>s'. teardown_begin s = Some s' \<longrightarrow>
            exit_flag (thread_pool s') \<and> condvar (thread_pool s') = [] \<and>
            phase s' = TearingDown) \<and>
         (\<forall>s'. teardown_end s = Some s' \<longrightarrow>
            list_all is_Exiting (threads s') \<and> phase s' = Destroyed)"
proof -
  note init = ThreadPool_new_invs [OF assms(1)]
  have "teardown_inv s"
    using step_teardown init(3) assms(2) by (rule run_invariant)
  then have down: "phase s \<noteq> Running \<Longrightarrow> exit_flag (thread_pool s) \<and> condvar (thread_pool s) = []"
    and gone: "phase s = Destroyed \<Longrightarrow> list_all is_Exiting (threads s)"
    by (simp_all add: teardown_inv_def)
  from run_phase [OF assms(2)] init(5)
  have begins: "count_list evs Teardown_begin = (if phase s \<noteq> Running then 1 else 0)"
    and ends: "count_list evs Teardown_end = (if phase s = Destroyed then 1 else 0)"
    by simp_all
  from run_ghost [OF assms(2)] init(7) have len: "length (threads s) = nat n" by simp
  have once: "phase s \<noteq> Running \<Longrightarrow> teardown_begin s = None"
    by (simp add: teardown_begin_def)
  have b: "\<And>s'. teardown_begin s = Some s' \<Longrightarrow>
      exit_flag (thread_pool s') \<and> condvar (thread_pool s') = [] \<and> phase s' = TearingDown"
    by (auto simp: teardown_begin_def notify_all_def split: if_splits)
  have e: "\<And>s'. teardown_end s = Some s' \<Longrightarrow>
      list_all is_Exiting (threads s') \<and> phase s' = Destroyed"
    by (auto simp: teardown_end_def split: if_splits)
  from down gone begins ends len once b e show ?thesis by simp
qed

theorem teardown_sets_flag_wakes_and_joins_witness:
  "case ThreadPool_new 2 sample_memory of
     None \<Rightarrow> False
   | Some s0 \<Rightarrow>
       (case run sample_run_teardown s0 of
          None \<Rightarrow> False
        | Some s \<Rightarrow>
            phase s = Destroyed \<and> exit_flag (thread_pool s) \<and> condvar (thread_pool s) = [] \<and>
            threads s = [Exiting, Exiting] \<and> user (mem s) = 1 \<and>
            count_list sample_run_teardown Teardown_begin = 1 \<and>
            (case run (take 4 sample_run_teardown) s0 of
               None \<Rightarrow> False
             | Some s1 \<Rightarrow> phase s1 = TearingDown \<and> work_queue (thread_pool s1) = [\<lparr>func = add_user 1\<rparr>]))"
  using teardown_sets_flag_wakes_and_joins [of 2 sample_memory
      "the (ThreadPool_new 2 sample_memory)" sample_run_teardown
      "the (run sample_run_teardown (the (ThreadPool_new 2 sample_memory)))"]
  by (simp add: sample_run_teardown_def step_defs)

end
